theory Spec2Isabelle
  imports Main "HOL-Library.Multiset" "HOL-Library.AList"
begin

section \<open>Data model of the voting service\<close>

text \<open>
  The service (\<^verbatim>\<open>src/server.js\<close>) keeps three pieces of mutable state: the store
  \<^verbatim>\<open>db\<close> (LevelDB, one JSON document per e-mail address), the array \<^verbatim>\<open>cache\<close> of
  countries and the object \<^verbatim>\<open>stats\<close>; accepted votes are handed to the job queue
  \<^verbatim>\<open>votesQueue\<close>, which a separate worker consumes.

  A JSON document of the store and the payload of a \<^verbatim>\<open>PUT\<close> request have the same shape
  (the stored vote is \<^verbatim>\<open>{...request.payload, created, index}\<close>), so both are values of
  one record type. A field that may be missing is an option, \<open>None\<close> being JavaScript's
  \<^verbatim>\<open>undefined\<close>. \<open>created\<close> holds the instant read by \<^verbatim>\<open>new Date()\<close>; its rendering
  \<^verbatim>\<open>toISOString()\<close> is a string of 24 characters, so the field is truthy exactly when it is
  present. \<open>confirmed\<close> is the truthiness of the field \<^verbatim>\<open>confirmed\<close> (false when missing).
\<close>

type_synonym timestamp = nat

record vote_record =
  vote_id :: string
  email :: string
  nationality :: "string option"
  accept_terms :: "string option"
  over_18 :: "string option"
  confirmed :: bool
  answers :: "(string \<times> string) list"
  created :: "timestamp option"
  index :: "nat option"

text \<open>An element of \<^verbatim>\<open>cache\<close>: \<^verbatim>\<open>{ code, vote: [...] }\<close>. The field \<^verbatim>\<open>vote\<close> is called
  \<open>votes\<close> here; its elements are results of \<^verbatim>\<open>extractPublicPart\<close>, of a type \<open>'p\<close> the
  service does not look into.\<close>

record 'p country =
  code :: "string option"
  votes :: "'p list"

text \<open>The object built by \<^verbatim>\<open>createStats\<close>: \<^verbatim>\<open>{ global: { count }, country: [{ code, count, vote }] }\<close>.\<close>

record 'p country_stats =
  s_code :: "string option"
  s_count :: nat
  s_vote :: "'p list"

record 'p stats_record =
  global_count :: nat
  country_list :: "'p country_stats list"

text \<open>Exceptions (rejected promises) and the responses the handler returns. The handler's
  \<^verbatim>\<open>return null\<close> is the empty response 204.\<close>

datatype exn = NotFoundError | WriteError | QueueError | MailError | FetchError | TypeError
  | Thrown string

datatype response = Forbidden | Conflict | NotAcceptable | NoContent

text \<open>The server's state. \<open>queue\<close> lists the jobs saved to \<^verbatim>\<open>votesQueue\<close>, oldest first;
  \<open>console\<close> lists the errors passed to \<^verbatim>\<open>console.log\<close>.\<close>

record 'p state =
  db :: "(string \<times> vote_record) list"
  cache :: "'p country list"
  stats :: "'p stats_record"
  queue :: "vote_record list"
  console :: "exn list"

text \<open>What the outside world decides during one call of the handler: the clock, and
  whether the store's \<^verbatim>\<open>put\<close> and the queue's \<^verbatim>\<open>save\<close> reject.\<close>

record env =
  now :: timestamp
  put_error :: "exn option"
  save_error :: "exn option"

record request =
  credentials_email :: string
  payload :: vote_record

section \<open>The server\<close>

text \<open>\<^verbatim>\<open>db.get(key)\<close> rejects when the key is absent (\<^verbatim>\<open>oauth\<close> relies on it: its
  \<^verbatim>\<open>catch\<close> branch creates the record).\<close>

definition db_get :: "(string \<times> vote_record) list \<Rightarrow> string \<Rightarrow> exn + vote_record" where
  "db_get d k = (case map_of d k of None \<Rightarrow> Inl NotFoundError | Some v \<Rightarrow> Inr v)"

text \<open>\<^verbatim>\<open>createStats\<close> (lines 131-148): the \<^verbatim>\<open>for\<close> loop is the left fold,
  \<^verbatim>\<open>slice(0, 5)\<close> is \<open>take 5\<close>.\<close>

definition createStats :: "'p country list \<Rightarrow> 'p stats_record" where
  "createStats c =
     \<lparr>global_count = foldl (\<lambda>n country. n + length (votes country)) 0 c,
      country_list = map (\<lambda>country.
        \<lparr>s_code = code country, s_count = length (votes country),
         s_vote = take 5 (votes country)\<rparr>) c\<rparr>"

text \<open>\<^verbatim>\<open>getIndex\<close> (lines 185-195) returns the index and leaves a new, empty country pushed
  to the end of \<^verbatim>\<open>cache\<close> when none has the vote's nationality.\<close>

definition getIndex :: "vote_record \<Rightarrow> 'p country list \<Rightarrow> nat \<times> 'p country list" where
  "getIndex v c =
     (case find (\<lambda>x. code x = nationality v) c of
        None \<Rightarrow> (length ([] :: 'p list) + 1, c @ [\<lparr>code = nationality v, votes = []\<rparr>])
      | Some country \<Rightarrow> (length (votes country) + 1, c))"

text \<open>\<^verbatim>\<open>country.vote = [p, ...country.vote]\<close> where \<^verbatim>\<open>country\<close> is the object that
  \<^verbatim>\<open>cache.find\<close> returned: the first element with that code changes in place.\<close>

fun prepend_vote :: "string option \<Rightarrow> 'p \<Rightarrow> 'p country list \<Rightarrow> 'p country list" where
  "prepend_vote k p [] = []"
| "prepend_vote k p (c # cs) =
     (if code c = k then c\<lparr>votes := p # votes c\<rparr> # cs else c # prepend_vote k p cs)"

text \<open>\<^verbatim>\<open>cache.sort((a, b) => b.vote.length - a.vote.length)\<close>: \<^verbatim>\<open>Array.prototype.sort\<close> is
  stable (ECMAScript 2019), as is insertion sort by the key \<open>- length\<close>.\<close>

definition sort_cache :: "'p country list \<Rightarrow> 'p country list" where
  "sort_cache c = sort_key (\<lambda>x. - int (length (votes x))) c"

text \<open>Lines 220-223, the statements of the first \<^verbatim>\<open>try\<close> block after the store write
  (the spec's \<^verbatim>\<open>applyVote\<close>). \<^verbatim>\<open>extractPublicPart\<close> comes from \<^verbatim>\<open>./common\<close>, which is not
  part of the sources at hand: it is a parameter, and it may throw. \<open>Inl\<close> is the exception
  that leaves the block; nothing has been assigned by then.\<close>

definition applyVote ::
  "(vote_record \<Rightarrow> exn + 'p) \<Rightarrow> vote_record \<Rightarrow> 'p state \<Rightarrow> exn + 'p state" where
  "applyVote extractPublicPart v s =
     (case find (\<lambda>c. code c = nationality v) (cache s) of
        None \<Rightarrow> Inl TypeError
      | Some country \<Rightarrow>
          (case extractPublicPart v of
             Inl e \<Rightarrow> Inl e
           | Inr p \<Rightarrow>
               let c = sort_cache (prepend_vote (nationality v) p (cache s))
               in Inr (s\<lparr>cache := c, stats := createStats c\<rparr>)))"

definition console_log :: "exn \<Rightarrow> 'p state \<Rightarrow> 'p state" where
  "console_log e s = s\<lparr>console := console s @ [e]\<rparr>"

text \<open>The \<^verbatim>\<open>else\<close> branch of the handler \<^verbatim>\<open>vote\<close> (lines 203-235), the spec's
  \<^verbatim>\<open>submit\<close>: the request's \<^verbatim>\<open>email\<close> is the session's. The result is the response, or the
  exception that leaves the handler, and the state left behind.\<close>

definition submit ::
  "(vote_record \<Rightarrow> exn + 'p) \<Rightarrow> env \<Rightarrow> request \<Rightarrow> 'p state \<Rightarrow> (exn + response) \<times> 'p state" where
  "submit extractPublicPart e r s =
     (case db_get (db s) (credentials_email r) of
        Inl err \<Rightarrow> (Inl err, s)
      | Inr v \<Rightarrow>
          if vote_id (payload r) \<noteq> vote_id v \<or> created v \<noteq> None then (Inr Conflict, s)
          else if accept_terms (payload r) \<noteq> Some ''on'' \<or> over_18 (payload r) \<noteq> Some ''on''
          then (Inr NotAcceptable, s)
          else
            let (i, c) = getIndex (payload r) (cache s);
                v' = (payload r)\<lparr>created := Some (now e), index := Some i\<rparr>;
                s1 = s\<lparr>cache := c\<rparr>;
                s2 = (case put_error e of
                        Some err \<Rightarrow> console_log err s1
                      | None \<Rightarrow>
                          (let s' = s1\<lparr>db := AList.update (credentials_email r) v' (db s1)\<rparr>
                           in case applyVote extractPublicPart v' s' of
                                Inl err \<Rightarrow> console_log err s'
                              | Inr s'' \<Rightarrow> s''));
                s3 = (case save_error e of
                        Some err \<Rightarrow> console_log err s2
                      | None \<Rightarrow> s2\<lparr>queue := queue s2 @ [v']\<rparr>)
            in (Inr NoContent, s3))"

text \<open>The handler \<^verbatim>\<open>vote\<close> of \<^verbatim>\<open>PUT /{cuid}\<close> (lines 198-237).\<close>

definition vote ::
  "(vote_record \<Rightarrow> exn + 'p) \<Rightarrow> env \<Rightarrow> request \<Rightarrow> 'p state \<Rightarrow> (exn + response) \<times> 'p state" where
  "vote extractPublicPart e r s =
     (if email (payload r) \<noteq> credentials_email r then (Inr Forbidden, s)
      else submit extractPublicPart e r s)"

text \<open>\<^verbatim>\<open>listVotes\<close> and \<^verbatim>\<open>listStats\<close> (lines 252-258).\<close>

definition listVotes :: "string \<Rightarrow> 'p state \<Rightarrow> 'p country option" where
  "listVotes countryCode s = find (\<lambda>c. code c = Some countryCode) (cache s)"

definition listStats :: "'p state \<Rightarrow> 'p stats_record" where
  "listStats s = stats s"

text \<open>A sequential run of the server: one call of the handler after the other, each with
  its own outside world. A call that throws leaves the state as it is.\<close>

fun run ::
  "(vote_record \<Rightarrow> exn + 'p) \<Rightarrow> (env \<times> request) list \<Rightarrow> 'p state \<Rightarrow> 'p state" where
  "run extractPublicPart [] s = s"
| "run extractPublicPart ((e, r) # rs) s =
     run extractPublicPart rs (snd (vote extractPublicPart e r s))"

section \<open>The worker\<close>

text \<open>Configuration fields the worker reads; a missing or empty string is falsy.\<close>

record config =
  smtp_user :: string
  backup_url :: "string option"
  backup_token :: "string option"

definition truthy :: "string option \<Rightarrow> bool" where
  "truthy x = (case x of None \<Rightarrow> False | Some s \<Rightarrow> s \<noteq> [])"

definition str :: "string option \<Rightarrow> string" where
  "str x = (case x of None \<Rightarrow> ''undefined'' | Some s \<Rightarrow> s)"

record mail =
  mail_from :: string
  mail_to :: string
  mail_subject :: string
  mail_text :: string

text \<open>\<^verbatim>\<open>generateMail\<close> (lines 303-316). The two text functions come from \<^verbatim>\<open>./emailText\<close>
  and are parameters.\<close>

definition generateMail ::
  "(vote_record \<Rightarrow> string) \<Rightarrow> (vote_record \<Rightarrow> string) \<Rightarrow> config \<Rightarrow> vote_record \<Rightarrow> mail" where
  "generateMail doneEmailText confirmEmailText cfg v =
     (let m = \<lparr>mail_from = CHR 0x22 # ''Alice in Government'' @ [CHR 0x22] @ '' <''
                  @ smtp_user cfg @ ''>'',
               mail_to = email v, mail_subject = [], mail_text = []\<rparr>
      in if confirmed v
         then m\<lparr>mail_subject := ''Your vote was registered successfully'',
                mail_text := doneEmailText v\<rparr>
         else m\<lparr>mail_subject := ''Please confirm your vote'',
                mail_text := confirmEmailText v\<rparr>)"

text \<open>The \<^verbatim>\<open>POST\<close> of the backup: the job's data as body, the token as bearer.\<close>

record post =
  post_url :: string
  post_body :: vote_record
  post_content_type :: string
  post_authorization :: string

text \<open>What the worker does to the world: the mails handed to \<^verbatim>\<open>sendMail\<close>, the requests
  handed to \<^verbatim>\<open>fetch\<close>, in the order of the calls, and the errors logged.\<close>

record world =
  mails :: "mail list"
  posts :: "post list"
  logged :: "exn list"

record worker_env =
  mail_error :: "exn option"
  fetch_error :: "exn option"

definition sendMail :: "worker_env \<Rightarrow> mail \<Rightarrow> world \<Rightarrow> exn option \<times> world" where
  "sendMail e m w = (mail_error e, w\<lparr>mails := mails w @ [m]\<rparr>)"

definition fetch :: "worker_env \<Rightarrow> post \<Rightarrow> world \<Rightarrow> exn option \<times> world" where
  "fetch e p w = (fetch_error e, w\<lparr>posts := posts w @ [p]\<rparr>)"

definition catch_log :: "exn option \<times> world \<Rightarrow> world" where
  "catch_log x = (case x of (None, w) \<Rightarrow> w | (Some err, w) \<Rightarrow> w\<lparr>logged := logged w @ [err]\<rparr>)"

text \<open>The job processor (lines 278-300).\<close>

definition process ::
  "(vote_record \<Rightarrow> string) \<Rightarrow> (vote_record \<Rightarrow> string) \<Rightarrow> config \<Rightarrow> worker_env \<Rightarrow>
   vote_record \<Rightarrow> world \<Rightarrow> world" where
  "process doneEmailText confirmEmailText cfg e job_data w =
     (let w1 = catch_log (sendMail e (generateMail doneEmailText confirmEmailText cfg job_data) w)
      in if truthy (backup_url cfg) \<and> truthy (backup_token cfg) \<and> confirmed job_data
         then catch_log (fetch e
                \<lparr>post_url = str (backup_url cfg), post_body = job_data,
                 post_content_type = ''application/json'',
                 post_authorization = ''Bearer '' @ str (backup_token cfg)\<rparr> w1)
         else w1)"

section \<open>Notions used in the properties\<close>

text \<open>The votes \<^verbatim>\<open>cache\<close> lists under a code: those of the country that \<^verbatim>\<open>cache.find\<close>
  returns, none when there is no such country.\<close>

definition votes_for :: "string option \<Rightarrow> 'p country list \<Rightarrow> 'p list" where
  "votes_for k c = (case find (\<lambda>x. code x = k) c of None \<Rightarrow> [] | Some x \<Rightarrow> votes x)"

definition total_votes :: "'p country list \<Rightarrow> nat" where
  "total_votes c = sum_list (map (\<lambda>x. length (votes x)) c)"

text \<open>A stored document is a finalized vote when it has \<^verbatim>\<open>created\<close>.\<close>

definition finalized :: "vote_record \<Rightarrow> bool" where
  "finalized v = (created v \<noteq> None)"

definition finalized_for :: "string option \<Rightarrow> (string \<times> vote_record) list \<Rightarrow> vote_record list" where
  "finalized_for k d = filter (\<lambda>v. finalized v \<and> nationality v = k) (map snd d)"

text \<open>The request passes the checks of lines 204-211: the address is registered, the
  payload echoes the stored id, the stored document is not finalized, both consents are
  \<^verbatim>\<open>'on'\<close>.\<close>

definition acceptable :: "request \<Rightarrow> 'p state \<Rightarrow> bool" where
  "acceptable r s =
     (case db_get (db s) (credentials_email r) of
        Inl err \<Rightarrow> False
      | Inr v \<Rightarrow> vote_id (payload r) = vote_id v \<and> created v = None \<and>
          accept_terms (payload r) = Some ''on'' \<and> over_18 (payload r) = Some ''on'')"

text \<open>The vote built at lines 213-217.\<close>

definition new_vote :: "env \<Rightarrow> request \<Rightarrow> 'p state \<Rightarrow> vote_record" where
  "new_vote e r s =
     (payload r)\<lparr>created := Some (now e), index := Some (fst (getIndex (payload r) (cache s)))\<rparr>"

text \<open>What start-up (\<^verbatim>\<open>populateCache\<close>, then \<^verbatim>\<open>createStats\<close>) is to establish, and every call
  of the handler keeps: the store has one document per key, \<^verbatim>\<open>cache\<close> one country per code,
  and the finalized votes of a nationality carry the indexes from 1 to the number of
  votes \<^verbatim>\<open>cache\<close> lists for it, each once.\<close>

definition consistent :: "'p state \<Rightarrow> bool" where
  "consistent s =
     (distinct (map fst (db s)) \<and> distinct (map code (cache s)) \<and>
      (\<forall>k. mset (map index (finalized_for k (db s))) =
            mset (map Some [1..<Suc (length (votes_for k (cache s)))])))"

text \<open>The counts agree: the global count of \<^verbatim>\<open>stats\<close> is the sum of its countries' counts,
  the number of votes in \<^verbatim>\<open>cache\<close>, and the number of finalized documents in the store.\<close>

definition counts_agree :: "'p state \<Rightarrow> bool" where
  "counts_agree s =
     (global_count (stats s) = sum_list (map s_count (country_list (stats s))) \<and>
      global_count (stats s) = total_votes (cache s) \<and>
      total_votes (cache s) = length (filter finalized (map snd (db s))))"

section \<open>Example data\<close>

text \<open>A stand-in for \<^verbatim>\<open>extractPublicPart\<close> that keeps the nationality and the index, and
  one that throws.\<close>

definition public_part :: "vote_record \<Rightarrow> exn + (string option \<times> nat option)" where
  "public_part v = Inr (nationality v, index v)"

definition throwing_part :: "vote_record \<Rightarrow> exn + (string option \<times> nat option)" where
  "throwing_part v = Inl (Thrown ''no public part'')"

text \<open>The document \<^verbatim>\<open>{ id, email }\<close> that \<^verbatim>\<open>oauth\<close> stores for a new address, and a payload
  with both consents given.\<close>

definition registered :: "string \<Rightarrow> string \<Rightarrow> vote_record" where
  "registered i m =
     \<lparr>vote_id = i, email = m, nationality = None, accept_terms = None, over_18 = None,
      confirmed = False, answers = [], created = None, index = None\<rparr>"

definition ballot :: "string \<Rightarrow> string \<Rightarrow> string \<Rightarrow> vote_record" where
  "ballot i m n =
     \<lparr>vote_id = i, email = m, nationality = Some n, accept_terms = Some ''on'',
      over_18 = Some ''on'', confirmed = False, answers = [], created = None, index = None\<rparr>"

text \<open>The server's state after start-up on a store without finalized votes.\<close>

definition fresh :: "(string \<times> vote_record) list \<Rightarrow> (string option \<times> nat option) state" where
  "fresh d = \<lparr>db = d, cache = [], stats = createStats [], queue = [], console = []\<rparr>"

definition calm :: "timestamp \<Rightarrow> env" where
  "calm t = \<lparr>now = t, put_error = None, save_error = None\<rparr>"

definition put_ballot :: "string \<Rightarrow> string \<Rightarrow> string \<Rightarrow> request" where
  "put_ballot i m n = \<lparr>credentials_email = m, payload = ballot i m n\<rparr>"

text \<open>Two registered addresses and no vote yet; an outside world whose store rejects the
  write, and one whose queue rejects the job.\<close>

definition two_registered :: "(string option \<times> nat option) state" where
  "two_registered =
     fresh [(''ada@example.org'', registered ''X1'' ''ada@example.org''),
            (''bob@example.org'', registered ''X2'' ''bob@example.org'')]"

definition store_down :: "timestamp \<Rightarrow> env" where
  "store_down t = \<lparr>now = t, put_error = Some WriteError, save_error = None\<rparr>"

definition queue_down :: "timestamp \<Rightarrow> env" where
  "queue_down t = \<lparr>now = t, put_error = None, save_error = Some QueueError\<rparr>"

text \<open>Six registered addresses, and the requests in which they vote one after the other for
  the given nationalities.\<close>

definition voters :: "string list" where
  "voters = [''v1@example.org'', ''v2@example.org'', ''v3@example.org'',
             ''v4@example.org'', ''v5@example.org'', ''v6@example.org'']"

definition six_registered :: "(string option \<times> nat option) state" where
  "six_registered = fresh (map (\<lambda>m. (m, registered (''id-'' @ m) m)) voters)"

definition ballots :: "string list \<Rightarrow> (env \<times> request) list" where
  "ballots ns = map (\<lambda>(m, n). (calm 0, put_ballot (''id-'' @ m) m n)) (zip voters ns)"

text \<open>A worker configuration with a backup destination, and a worker whose mail transport
  fails.\<close>

definition with_backup :: config where
  "with_backup =
     \<lparr>smtp_user = ''alice@example.org'', backup_url = Some ''https://backup.example.org'',
      backup_token = Some ''secret''\<rparr>"

definition mail_down :: worker_env where
  "mail_down = \<lparr>mail_error = Some MailError, fetch_error = None\<rparr>"

definition idle :: world where
  "idle = \<lparr>mails = [], posts = [], logged = []\<rparr>"

text \<open>The definitions that the examples unfold.\<close>

lemmas example_defs = fresh_def two_registered_def registered_def ballot_def put_ballot_def
  calm_def store_down_def queue_down_def public_part_def throwing_part_def voters_def
  six_registered_def ballots_def with_backup_def mail_down_def idle_def

section \<open>The operations on the cache\<close>

lemma find_snoc:
  "find P (xs @ [y]) = (case find P xs of None \<Rightarrow> (if P y then Some y else None) | Some x \<Rightarrow> Some x)"
  by (induction xs) auto

lemma votes_for_getIndex: "votes_for k (snd (getIndex v c)) = votes_for k c"
  by (auto simp: getIndex_def votes_for_def find_snoc split: option.splits)

lemma find_getIndex: "find (\<lambda>x. code x = nationality v) (snd (getIndex v c)) \<noteq> None"
  by (auto simp: getIndex_def find_snoc split: option.splits)

lemma fst_getIndex: "fst (getIndex v c) = Suc (length (votes_for (nationality v) c))"
  by (auto simp: getIndex_def votes_for_def split: option.splits)

lemma distinct_getIndex:
  "distinct (map code c) \<Longrightarrow> distinct (map code (snd (getIndex v c)))"
  by (auto simp: getIndex_def find_None_iff split: option.splits)

lemma map_code_prepend_vote: "map code (prepend_vote k p c) = map code c"
  by (induction c) auto

lemma votes_for_prepend_vote:
  "votes_for k (prepend_vote n p c) =
     (if k = n \<and> find (\<lambda>x. code x = n) c \<noteq> None then p # votes_for k c else votes_for k c)"
  by (induction c) (auto simp: votes_for_def)

lemma total_votes_prepend_vote:
  "find (\<lambda>x. code x = n) c \<noteq> None \<Longrightarrow> total_votes (prepend_vote n p c) = Suc (total_votes c)"
  by (induction c) (auto simp: total_votes_def)

lemma total_votes_getIndex: "total_votes (snd (getIndex v c)) = total_votes c"
  by (auto simp: getIndex_def total_votes_def split: option.splits)

lemma find_distinct_code:
  assumes "distinct (map code c)" and "x \<in> set c"
  shows "find (\<lambda>y. code y = code x) c = Some x"
  using assms
  by (induction c) (auto simp: image_iff)

lemma votes_for_perm:
  assumes "distinct (map code c)" and "mset c' = mset c"
  shows "votes_for k c' = votes_for k c"
proof -
  have d: "distinct (map code c')"
    using assms by (metis distinct_map mset_eq_setD mset_eq_imp_distinct_iff mset_map)
  have s: "set c' = set c"
    using assms(2) by (rule mset_eq_setD)
  show ?thesis
  proof (cases "find (\<lambda>x. code x = k) c")
    case None
    then have "find (\<lambda>x. code x = k) c' = None"
      using s by (simp add: find_None_iff)
    with None show ?thesis by (simp add: votes_for_def)
  next
    case (Some x)
    then have "x \<in> set c" and "code x = k"
      by (auto simp: find_Some_iff)
    then have "find (\<lambda>y. code y = k) c' = Some x"
      using find_distinct_code [OF d, of x] s by auto
    with Some show ?thesis by (simp add: votes_for_def)
  qed
qed

lemma mset_sort_cache: "mset (sort_cache c) = mset c"
  by (simp add: sort_cache_def)

lemma votes_for_sort_cache: "distinct (map code c) \<Longrightarrow> votes_for k (sort_cache c) = votes_for k c"
  by (rule votes_for_perm) (simp_all add: mset_sort_cache)

lemma distinct_sort_cache: "distinct (map code (sort_cache c)) = distinct (map code c)"
  by (metis mset_sort_cache mset_eq_imp_distinct_iff mset_map)

lemma total_votes_sort_cache: "total_votes (sort_cache c) = total_votes c"
proof -
  have "mset (map (\<lambda>x. length (votes x)) (sort_cache c)) = mset (map (\<lambda>x. length (votes x)) c)"
    by (simp add: mset_sort_cache)
  then show ?thesis
    unfolding total_votes_def by (metis sum_mset_sum_list)
qed

lemma sorted_sort_cache:
  "sorted_wrt (\<lambda>a b. length (votes b) \<le> length (votes a)) (sort_cache c)"
proof -
  have "sorted (map (\<lambda>x. - int (length (votes x))) (sort_cache c))"
    by (simp add: sort_cache_def)
  then show ?thesis
    by (simp add: sorted_map)
qed

lemma stable_sort_cache:
  "filter (\<lambda>x. length (votes x) = n) (sort_cache c) = filter (\<lambda>x. length (votes x) = n) c"
  using sort_key_stable [of "\<lambda>x. - int (length (votes x))" "- int n" c]
  by (simp add: sort_cache_def)

lemma createStats_global: "global_count (createStats c) = total_votes c"
proof -
  have "foldl (\<lambda>n x. n + length (votes x)) a c = a + total_votes c" for a
    by (induction c arbitrary: a) (simp_all add: total_votes_def)
  from this [of 0] show ?thesis
    by (simp add: createStats_def)
qed

lemma createStats_counts:
  "sum_list (map s_count (country_list (createStats c))) = total_votes c"
  by (simp add: createStats_def total_votes_def comp_def)

section \<open>The handler, one call\<close>

lemma vote_submit:
  "email (payload r) = credentials_email r \<Longrightarrow> vote x e r s = submit x e r s"
  by (simp add: vote_def)

lemma submit_acceptable:
  assumes "acceptable r s"
  shows "submit x e r s =
     (Inr NoContent,
      (let v' = new_vote e r s;
           s1 = s\<lparr>cache := snd (getIndex (payload r) (cache s))\<rparr>;
           s2 = (case put_error e of
                   Some err \<Rightarrow> console_log err s1
                 | None \<Rightarrow>
                     (let s' = s1\<lparr>db := AList.update (credentials_email r) v' (db s1)\<rparr>
                      in case applyVote x v' s' of
                           Inl err \<Rightarrow> console_log err s'
                         | Inr s'' \<Rightarrow> s''));
           s3 = (case save_error e of
                   Some err \<Rightarrow> console_log err s2
                 | None \<Rightarrow> s2\<lparr>queue := queue s2 @ [v']\<rparr>)
       in s3))"
  using assms
  by (auto simp: submit_def acceptable_def new_vote_def Let_def case_prod_beta split: sum.splits)

lemma commit_db:
  assumes "acceptable r s" and "put_error e = None"
  shows "db (snd (submit x e r s)) = AList.update (credentials_email r) (new_vote e r s) (db s)"
  using assms
  by (auto simp: submit_acceptable Let_def console_log_def applyVote_def
      split: option.splits sum.splits)

lemma commit_lookup:
  assumes "acceptable r s" and "put_error e = None"
  shows "db_get (db (snd (submit x e r s))) (credentials_email r) = Inr (new_vote e r s)"
  by (simp add: commit_db [OF assms] db_get_def update_conv')

lemma commit_cache:
  assumes "acceptable r s" and "put_error e = None" and "x (new_vote e r s) = Inr p"
  shows "cache (snd (submit x e r s)) =
           sort_cache (prepend_vote (nationality (payload r)) p (snd (getIndex (payload r) (cache s))))"
proof -
  have "nationality (new_vote e r s) = nationality (payload r)"
    by (simp add: new_vote_def)
  with assms find_getIndex [of "payload r" "cache s"] show ?thesis
    by (auto simp: submit_acceptable Let_def console_log_def applyVote_def
        split: option.splits sum.splits)
qed

lemma commit_stats:
  assumes "acceptable r s" and "put_error e = None" and "x (new_vote e r s) = Inr p"
  shows "stats (snd (submit x e r s)) = createStats (cache (snd (submit x e r s)))"
proof -
  have "nationality (new_vote e r s) = nationality (payload r)"
    by (simp add: new_vote_def)
  with assms find_getIndex [of "payload r" "cache s"] show ?thesis
    by (auto simp: submit_acceptable Let_def console_log_def applyVote_def
        split: option.splits sum.splits)
qed

lemma commit_votes_for:
  assumes "acceptable r s" and "put_error e = None" and "x (new_vote e r s) = Inr p"
    and "distinct (map code (cache s))"
  shows "votes_for k (cache (snd (submit x e r s))) =
           (if k = nationality (payload r) then p # votes_for k (cache s) else votes_for k (cache s))"
proof -
  let ?c = "snd (getIndex (payload r) (cache s))"
  have "distinct (map code (prepend_vote (nationality (payload r)) p ?c))"
    using assms(4) by (simp add: map_code_prepend_vote distinct_getIndex)
  then show ?thesis
    using find_getIndex [of "payload r" "cache s"]
    by (simp add: commit_cache [of r s e x p] assms(1-3) votes_for_sort_cache
        votes_for_prepend_vote votes_for_getIndex)
qed

text \<open>
  Claim C2. For a registered address, \<^verbatim>\<open>submit\<close> answers Conflict exactly when the payload's
  id differs from the stored document's id or the stored document already has \<^verbatim>\<open>created\<close>;
  it then leaves the whole state (store, cache, stats, queue) as it was. A wrong id for a
  registered, unfinalized address is one instance; the same request once more, after the
  store has accepted the vote, is another.
\<close>

theorem submit_conflict_iff:
  assumes "db_get (db s) (credentials_email r) = Inr v"
  shows "(fst (submit x e r s) = Inr Conflict \<longleftrightarrow>
            vote_id (payload r) \<noteq> vote_id v \<or> created v \<noteq> None) \<and>
         (fst (submit x e r s) = Inr Conflict \<longrightarrow> snd (submit x e r s) = s) \<and>
         (\<forall>e'. acceptable r s \<and> put_error e = None \<longrightarrow>
            submit x e' r (snd (submit x e r s)) = (Inr Conflict, snd (submit x e r s)))"
proof -
  have "submit x e' r (snd (submit x e r s)) = (Inr Conflict, snd (submit x e r s))"
    if "acceptable r s" and "put_error e = None" for e'
  proof -
    have "db_get (db (snd (submit x e r s))) (credentials_email r) = Inr (new_vote e r s)"
      using that by (rule commit_lookup)
    moreover have "created (new_vote e r s) \<noteq> None"
      by (simp add: new_vote_def)
    ultimately show ?thesis
      by (simp add: submit_def [of x e' r])
  qed
  moreover from assms
  have "(fst (submit x e r s) = Inr Conflict \<longleftrightarrow>
            vote_id (payload r) \<noteq> vote_id v \<or> created v \<noteq> None) \<and>
         (fst (submit x e r s) = Inr Conflict \<longrightarrow> snd (submit x e r s) = s)"
    by (auto simp: submit_def Let_def split: prod.splits)
  ultimately show ?thesis
    by blast
qed

theorem submit_conflict_iff_witness:
  "db_get (db two_registered) (credentials_email (put_ballot ''X0'' ''ada@example.org'' ''FR''))
     = Inr (registered ''X1'' ''ada@example.org'') \<and>
   submit public_part (calm 7) (put_ballot ''X0'' ''ada@example.org'' ''FR'') two_registered
     = (Inr Conflict, two_registered) \<and>
   acceptable (put_ballot ''X1'' ''ada@example.org'' ''FR'') two_registered \<and>
   fst (submit public_part (calm 7) (put_ballot ''X1'' ''ada@example.org'' ''FR'') two_registered)
     = Inr NoContent \<and>
   fst (submit public_part (calm 8) (put_ballot ''X1'' ''ada@example.org'' ''FR'')
     (snd (submit public_part (calm 7) (put_ballot ''X1'' ''ada@example.org'' ''FR'')
        two_registered)))
     = Inr Conflict"
proof -
  let ?wrong = "put_ballot ''X0'' ''ada@example.org'' ''FR''"
  let ?right = "put_ballot ''X1'' ''ada@example.org'' ''FR''"
  have h: "db_get (db two_registered) (credentials_email ?wrong)
           = Inr (registered ''X1'' ''ada@example.org'')"
    by (simp add: example_defs db_get_def)
  have h': "db_get (db two_registered) (credentials_email ?right)
           = Inr (registered ''X1'' ''ada@example.org'')"
    by (simp add: example_defs db_get_def)
  have w: "vote_id (payload ?wrong) \<noteq> vote_id (registered ''X1'' ''ada@example.org'')"
    by (simp add: example_defs)
  have a: "acceptable ?right two_registered" and p: "put_error (calm 7) = None"
    by (simp_all add: example_defs acceptable_def db_get_def)
  have n: "fst (submit public_part (calm 7) ?right two_registered) = Inr NoContent"
    using a by (simp add: submit_acceptable)
  from submit_conflict_iff [OF h, of public_part "calm 7"] w
  have "submit public_part (calm 7) ?wrong two_registered = (Inr Conflict, two_registered)"
    by (simp add: prod_eq_iff)
  moreover from submit_conflict_iff [OF h', of public_part "calm 7"] a p
  have "fst (submit public_part (calm 8) ?right
          (snd (submit public_part (calm 7) ?right two_registered))) = Inr Conflict"
    by simp
  ultimately show ?thesis
    using h a n by simp
qed

text \<open>
  Claim C4. When the request passes the checks and the store accepts the write, \<^verbatim>\<open>submit\<close>
  answers with the empty success response and the store holds the new vote under the
  address, whatever \<^verbatim>\<open>extractPublicPart\<close> does (it may throw) and whether or not the queue
  accepts the job.
\<close>

theorem success_after_commit:
  assumes "acceptable r s" and "put_error e = None"
  shows "fst (submit x e r s) = Inr NoContent \<and>
         map_of (db (snd (submit x e r s))) (credentials_email r) = Some (new_vote e r s)"
  using assms
  by (auto simp: submit_acceptable Let_def console_log_def applyVote_def update_conv'
      split: option.splits sum.splits)

theorem success_after_commit_witness:
  "acceptable (put_ballot ''X1'' ''ada@example.org'' ''FR'') two_registered \<and>
   put_error (queue_down 7) = None \<and>
   fst (submit throwing_part (queue_down 7) (put_ballot ''X1'' ''ada@example.org'' ''FR'')
          two_registered) = Inr NoContent"
proof -
  have h: "acceptable (put_ballot ''X1'' ''ada@example.org'' ''FR'') two_registered"
    by (simp add: example_defs acceptable_def db_get_def)
  have g: "put_error (queue_down 7) = None"
    by (simp add: queue_down_def)
  from success_after_commit [OF h g, of throwing_part] h g show ?thesis
    by simp
qed

text \<open>
  Claim C5. A request reaches the consent check of line 208 when its address is registered,
  the payload echoes the stored id and the stored document is not finalized (the checks of
  lines 204-205 come first, as in the spec's steps 1 and 2). When such a request has a
  consent field that is anything other than \<^verbatim>\<open>'on'\<close>, \<^verbatim>\<open>submit\<close> answers NotAcceptable. In
  every case a consent field other than \<^verbatim>\<open>'on'\<close> leaves the whole state as it was: nothing
  is written to the store, \<^verbatim>\<open>cache\<close> and \<^verbatim>\<open>stats\<close> do not change, and no job is enqueued.
\<close>

theorem consent_missing:
  assumes "accept_terms (payload r) \<noteq> Some ''on'' \<or> over_18 (payload r) \<noteq> Some ''on''"
  shows "snd (submit x e r s) = s \<and>
         (\<forall>v. db_get (db s) (credentials_email r) = Inr v \<and> vote_id (payload r) = vote_id v \<and>
               created v = None \<longrightarrow> fst (submit x e r s) = Inr NotAcceptable)"
  using assms
  by (auto simp: submit_def split: sum.splits)

theorem consent_missing_witness:
  "over_18 (ballot ''X1'' ''ada@example.org'' ''FR'' \<lparr>over_18 := None\<rparr>) \<noteq> Some ''on'' \<and>
   submit public_part (calm 7)
     \<lparr>credentials_email = ''ada@example.org'',
      payload = ballot ''X1'' ''ada@example.org'' ''FR'' \<lparr>over_18 := None\<rparr>\<rparr> two_registered
   = (Inr NotAcceptable, two_registered)"
proof -
  let ?r = "\<lparr>credentials_email = ''ada@example.org'',
      payload = ballot ''X1'' ''ada@example.org'' ''FR'' \<lparr>over_18 := None\<rparr>\<rparr>"
  have h: "accept_terms (payload ?r) \<noteq> Some ''on'' \<or> over_18 (payload ?r) \<noteq> Some ''on''"
    by (simp add: example_defs)
  have g: "db_get (db two_registered) (credentials_email ?r)
             = Inr (registered ''X1'' ''ada@example.org'') \<and>
           vote_id (payload ?r) = vote_id (registered ''X1'' ''ada@example.org'') \<and>
           created (registered ''X1'' ''ada@example.org'') = None"
    by (simp add: example_defs db_get_def)
  from consent_missing [OF h, of public_part "calm 7" two_registered] g
  have "snd (submit public_part (calm 7) ?r two_registered) = two_registered \<and>
        fst (submit public_part (calm 7) ?r two_registered) = Inr NotAcceptable"
    by blast
  then show ?thesis
    by (simp add: prod_eq_iff ballot_def)
qed

text \<open>
  Claim C8 says that a submission for an address without a document in the store is answered
  as forbidden. With an empty store the handler ends with the store's not-found error, not
  with the forbidden response.
\<close>

theorem unregistered_counterexample:
  "map_of (db (fresh [])) ''ada@example.org'' = None \<and>
   fst (vote public_part (calm 7) (put_ballot ''X1'' ''ada@example.org'' ''FR'') (fresh []))
     = Inl NotFoundError \<and>
   fst (vote public_part (calm 7) (put_ballot ''X1'' ''ada@example.org'' ''FR'') (fresh []))
     \<noteq> Inr Forbidden"
  by (simp add: example_defs vote_def submit_def db_get_def)

text \<open>
  Claim C8, amended. When the store has no document under the address, \<^verbatim>\<open>submit\<close> ends with
  the store's not-found error, which the handler neither catches nor turns into a response,
  and the state is unchanged; the handler's forbidden response is given exactly when the
  payload's \<^verbatim>\<open>email\<close> differs from the session's.
\<close>

theorem submit_unregistered:
  assumes "map_of (db s) (credentials_email r) = None"
  shows "submit x e r s = (Inl NotFoundError, s) \<and>
         (email (payload r) = credentials_email r \<longrightarrow> vote x e r s = (Inl NotFoundError, s)) \<and>
         (fst (vote x e r s) = Inr Forbidden \<longleftrightarrow> email (payload r) \<noteq> credentials_email r)"
  using assms
  by (auto simp: submit_def vote_def db_get_def)

theorem submit_unregistered_witness:
  "map_of (db (fresh [])) (credentials_email (put_ballot ''X1'' ''ada@example.org'' ''FR'')) = None \<and>
   submit public_part (calm 7) (put_ballot ''X1'' ''ada@example.org'' ''FR'') (fresh [])
     = (Inl NotFoundError, fresh []) \<and>
   vote public_part (calm 7) (put_ballot ''X1'' ''ada@example.org'' ''FR'') (fresh [])
     = (Inl NotFoundError, fresh [])"
proof -
  have h: "map_of (db (fresh [] :: (string option \<times> nat option) state))
             (credentials_email (put_ballot ''X1'' ''ada@example.org'' ''FR'')) = None"
    by (simp add: example_defs)
  have "email (payload (put_ballot ''X1'' ''ada@example.org'' ''FR''))
          = credentials_email (put_ballot ''X1'' ''ada@example.org'' ''FR'')"
    by (simp add: example_defs)
  with h submit_unregistered [OF h, of public_part "calm 7"] show ?thesis
    by simp
qed

text \<open>
  Claim C3 says that a failed store write is surfaced as a server error, with no cache
  update and no job. When the store rejects the write of an acceptable vote, the handler
  answers with the empty success response and the vote, though absent from the store, is
  enqueued; \<^verbatim>\<open>getIndex\<close> has pushed the new country to \<^verbatim>\<open>cache\<close> by then.
\<close>

theorem store_failure_counterexample:
  "put_error (store_down 7) = Some WriteError \<and>
   fst (submit public_part (store_down 7) (put_ballot ''X1'' ''ada@example.org'' ''FR'')
          two_registered) = Inr NoContent \<and>
   db (snd (submit public_part (store_down 7) (put_ballot ''X1'' ''ada@example.org'' ''FR'')
          two_registered)) = db two_registered \<and>
   queue (snd (submit public_part (store_down 7) (put_ballot ''X1'' ''ada@example.org'' ''FR'')
          two_registered))
     = [ballot ''X1'' ''ada@example.org'' ''FR'' \<lparr>created := Some 7, index := Some 1\<rparr>] \<and>
   cache (snd (submit public_part (store_down 7) (put_ballot ''X1'' ''ada@example.org'' ''FR'')
          two_registered)) = [\<lparr>code = Some ''FR'', votes = []\<rparr>]"
  by (simp add: example_defs submit_def db_get_def getIndex_def console_log_def)

text \<open>
  Claim C3, amended. When the store rejects the write of an acceptable vote, the error is
  caught and logged and the response is the empty success; the store and \<^verbatim>\<open>stats\<close> are
  unchanged and \<^verbatim>\<open>cache\<close> lists the same votes under every code as before; the job carrying
  the vote is still handed to the queue (and enqueued unless the queue rejects it).
\<close>

theorem store_failure_logged:
  assumes "acceptable r s" and "put_error e = Some err"
  shows "fst (submit x e r s) = Inr NoContent \<and>
         db (snd (submit x e r s)) = db s \<and>
         stats (snd (submit x e r s)) = stats s \<and>
         (\<forall>k. votes_for k (cache (snd (submit x e r s))) = votes_for k (cache s)) \<and>
         queue (snd (submit x e r s)) =
           queue s @ (case save_error e of None \<Rightarrow> [new_vote e r s] | Some err' \<Rightarrow> []) \<and>
         err \<in> set (console (snd (submit x e r s)))"
  using assms
  by (auto simp: submit_acceptable Let_def console_log_def votes_for_getIndex
      split: option.splits)

theorem store_failure_logged_witness:
  "acceptable (put_ballot ''X1'' ''ada@example.org'' ''FR'') two_registered \<and>
   put_error (store_down 7) = Some WriteError \<and>
   fst (submit public_part (store_down 7) (put_ballot ''X1'' ''ada@example.org'' ''FR'')
          two_registered) = Inr NoContent \<and>
   db (snd (submit public_part (store_down 7) (put_ballot ''X1'' ''ada@example.org'' ''FR'')
          two_registered)) = db two_registered \<and>
   queue (snd (submit public_part (store_down 7) (put_ballot ''X1'' ''ada@example.org'' ''FR'')
          two_registered))
     = [new_vote (store_down 7) (put_ballot ''X1'' ''ada@example.org'' ''FR'') two_registered]"
proof -
  have h: "acceptable (put_ballot ''X1'' ''ada@example.org'' ''FR'') two_registered"
    by (simp add: example_defs acceptable_def db_get_def)
  have g: "put_error (store_down 7) = Some WriteError"
    by (simp add: store_down_def)
  have "save_error (store_down 7) = None" and "queue two_registered = []"
    by (simp_all add: example_defs)
  with store_failure_logged [OF h g, of public_part] h g show ?thesis
    by simp
qed

text \<open>
  Claim C6 says that the country aggregates, also the one \<^verbatim>\<open>listVotes\<close> returns, hold at most
  5 recent votes. After six votes for one country the country found in \<^verbatim>\<open>cache\<close> lists six.
\<close>

theorem recent_votes_counterexample:
  "map_option (\<lambda>c. length (votes c))
     (listVotes ''FR''
        (run public_part (ballots [''FR'', ''FR'', ''FR'', ''FR'', ''FR'', ''FR'']) six_registered))
   = Some 6"
  by code_simp

text \<open>
  Claim C6, amended. An accepted vote whose public part is \<open>p\<close> is put in front of the list
  of its country in \<^verbatim>\<open>cache\<close>, which keeps every vote (most recent first) and is what
  \<^verbatim>\<open>listVotes\<close> returns; the lists of the other countries do not change. Only the
  per-country lists of \<^verbatim>\<open>stats\<close> are cut to the first 5 votes.
\<close>

theorem cache_keeps_every_vote:
  assumes "acceptable r s" and "put_error e = None" and "x (new_vote e r s) = Inr p"
    and "distinct (map code (cache s))"
  shows "votes_for (nationality (payload r)) (cache (snd (submit x e r s)))
           = p # votes_for (nationality (payload r)) (cache s) \<and>
         (\<forall>cc. nationality (payload r) = Some cc \<longrightarrow>
            map_option votes (listVotes cc (snd (submit x e r s)))
              = Some (p # votes_for (Some cc) (cache s))) \<and>
         (\<forall>k. k \<noteq> nationality (payload r) \<longrightarrow>
            votes_for k (cache (snd (submit x e r s))) = votes_for k (cache s)) \<and>
         country_list (listStats (snd (submit x e r s)))
           = map (\<lambda>c. \<lparr>s_code = code c, s_count = length (votes c), s_vote = take 5 (votes c)\<rparr>)
               (cache (snd (submit x e r s))) \<and>
         (\<forall>cs \<in> set (country_list (listStats (snd (submit x e r s)))). length (s_vote cs) \<le> 5)"
proof -
  let ?s = "snd (submit x e r s)"
  have v: "votes_for k (cache ?s) =
             (if k = nationality (payload r) then p # votes_for k (cache s)
              else votes_for k (cache s))" for k
    using assms by (rule commit_votes_for)
  have l: "map_option votes (listVotes cc ?s) = Some (p # votes_for (Some cc) (cache s))"
    if "nationality (payload r) = Some cc" for cc
  proof -
    from v [of "Some cc"] that
    have "votes_for (Some cc) (cache ?s) = p # votes_for (Some cc) (cache s)"
      by simp
    then show ?thesis
      by (auto simp: votes_for_def listVotes_def split: option.splits)
  qed
  have st: "stats ?s = createStats (cache ?s)"
    using assms(1-3) by (rule commit_stats)
  from v l st show ?thesis
    by (auto simp: listStats_def createStats_def)
qed

theorem cache_keeps_every_vote_witness:
  "acceptable (put_ballot ''X1'' ''ada@example.org'' ''FR'') two_registered \<and>
   put_error (calm 7) = None \<and>
   public_part (new_vote (calm 7) (put_ballot ''X1'' ''ada@example.org'' ''FR'') two_registered)
     = Inr (Some ''FR'', Some 1) \<and>
   distinct (map code (cache two_registered)) \<and>
   votes_for (Some ''FR'')
     (cache (snd (submit public_part (calm 7) (put_ballot ''X1'' ''ada@example.org'' ''FR'')
        two_registered))) = [(Some ''FR'', Some 1)]"
proof -
  let ?r = "put_ballot ''X1'' ''ada@example.org'' ''FR''"
  have h: "acceptable ?r two_registered"
    by (simp add: example_defs acceptable_def db_get_def)
  have g: "put_error (calm 7) = None"
    by (simp add: calm_def)
  have p: "public_part (new_vote (calm 7) ?r two_registered) = Inr (Some ''FR'', Some 1)"
    by (simp add: example_defs new_vote_def getIndex_def)
  have d: "distinct (map code (cache two_registered))"
    by (simp add: example_defs)
  have "nationality (payload ?r) = Some ''FR''"
    and "votes_for (Some ''FR'') (cache two_registered) = []"
    by (simp_all add: example_defs votes_for_def)
  with cache_keeps_every_vote
      [of ?r two_registered "calm 7" public_part "(Some ''FR'', Some 1)"] h g p d
  show ?thesis
    by simp
qed

text \<open>
  Claim C9 says that countries with equal counts are listed in insertion order. Austria is
  inserted before Belgium; Belgium overtakes it with its third vote, and when Austria draws
  level again Belgium stays in front.
\<close>

theorem tie_order_counterexample:
  "map (\<lambda>c. (code c, length (votes c)))
     (cache (run public_part (ballots [''AT'', ''AT'', ''BE'']) six_registered))
   = [(Some ''AT'', 2), (Some ''BE'', 1)] \<and>
   map (\<lambda>c. (code c, length (votes c)))
     (cache (run public_part (ballots [''AT'', ''AT'', ''BE'', ''BE'', ''BE'', ''AT''])
        six_registered))
   = [(Some ''BE'', 3), (Some ''AT'', 3)]"
  by code_simp

text \<open>
  Claim C9, amended. After an accepted vote \<^verbatim>\<open>cache\<close> is sorted by vote count, descending;
  countries with equal counts keep the relative order they had in \<^verbatim>\<open>cache\<close> just before this
  sort (which need not be the order of their insertion), and \<^verbatim>\<open>stats\<close> lists the countries
  in the order of \<^verbatim>\<open>cache\<close>, with their counts.
\<close>

theorem cache_sorted_stable:
  assumes "acceptable r s" and "put_error e = None" and "x (new_vote e r s) = Inr p"
  shows "sorted_wrt (\<lambda>a b. length (votes b) \<le> length (votes a)) (cache (snd (submit x e r s))) \<and>
         (\<forall>n. filter (\<lambda>c. length (votes c) = n) (cache (snd (submit x e r s)))
               = filter (\<lambda>c. length (votes c) = n)
                   (prepend_vote (nationality (payload r)) p
                      (snd (getIndex (payload r) (cache s))))) \<and>
         map s_code (country_list (listStats (snd (submit x e r s))))
           = map code (cache (snd (submit x e r s))) \<and>
         map s_count (country_list (listStats (snd (submit x e r s))))
           = map (\<lambda>c. length (votes c)) (cache (snd (submit x e r s)))"
proof -
  let ?s = "snd (submit x e r s)"
  have c: "cache ?s = sort_cache (prepend_vote (nationality (payload r)) p
             (snd (getIndex (payload r) (cache s))))"
    using assms by (rule commit_cache)
  have st: "stats ?s = createStats (cache ?s)"
    using assms by (rule commit_stats)
  have "map s_code (country_list (createStats k)) = map code k"
    and "map s_count (country_list (createStats k)) = map (\<lambda>c. length (votes c)) k"
    for k :: "'a country list"
    by (simp_all add: createStats_def comp_def)
  with c st show ?thesis
    by (simp add: sorted_sort_cache stable_sort_cache listStats_def)
qed

theorem cache_sorted_stable_witness:
  "acceptable (put_ballot ''id-v6@example.org'' ''v6@example.org'' ''AT'')
     (run public_part (ballots [''AT'', ''AT'', ''BE'', ''BE'', ''BE'']) six_registered) \<and>
   map (\<lambda>c. (code c, length (votes c)))
     (cache (run public_part (ballots [''AT'', ''AT'', ''BE'', ''BE'', ''BE'']) six_registered))
     = [(Some ''BE'', 3), (Some ''AT'', 2)] \<and>
   map (\<lambda>c. (s_code c, s_count c)) (country_list (listStats
     (snd (submit public_part (calm 0) (put_ballot ''id-v6@example.org'' ''v6@example.org'' ''AT'')
        (run public_part (ballots [''AT'', ''AT'', ''BE'', ''BE'', ''BE'']) six_registered)))))
     = [(Some ''BE'', 3), (Some ''AT'', 3)] \<and>
   sorted_wrt (\<lambda>a b. length (votes b) \<le> length (votes a))
     (cache (snd (submit public_part (calm 0)
        (put_ballot ''id-v6@example.org'' ''v6@example.org'' ''AT'')
        (run public_part (ballots [''AT'', ''AT'', ''BE'', ''BE'', ''BE'']) six_registered))))"
proof -
  let ?s = "run public_part (ballots [''AT'', ''AT'', ''BE'', ''BE'', ''BE'']) six_registered"
  let ?r = "put_ballot ''id-v6@example.org'' ''v6@example.org'' ''AT''"
  have h: "acceptable ?r ?s"
    by code_simp
  have g: "put_error (calm 0) = None"
    by (simp add: calm_def)
  have p: "public_part (new_vote (calm 0) ?r ?s) = Inr (Some ''AT'', Some 3)"
    by code_simp
  have c: "map (\<lambda>c. (code c, length (votes c))) (cache ?s) = [(Some ''BE'', 3), (Some ''AT'', 2)]"
    by code_simp
  have st: "map (\<lambda>c. (s_code c, s_count c)) (country_list (listStats
     (snd (submit public_part (calm 0) ?r ?s)))) = [(Some ''BE'', 3), (Some ''AT'', 3)]"
    by code_simp
  from cache_sorted_stable [of ?r ?s "calm 0" public_part "(Some ''AT'', Some 3)"] h g p
  have "sorted_wrt (\<lambda>a b. length (votes b) \<le> length (votes a))
     (cache (snd (submit public_part (calm 0) ?r ?s)))"
    by blast
  with h c st show ?thesis
    by blast
qed

section \<open>Runs of the server\<close>

lemma not_acceptable_same: "\<not> acceptable r s \<Longrightarrow> snd (submit x e r s) = s"
  by (auto simp: submit_def acceptable_def split: sum.splits)

lemma failed_components:
  assumes "acceptable r s" and "put_error e = Some err"
  shows "db (snd (submit x e r s)) = db s"
    and "stats (snd (submit x e r s)) = stats s"
    and "cache (snd (submit x e r s)) = snd (getIndex (payload r) (cache s))"
  using assms
  by (auto simp: submit_acceptable Let_def console_log_def split: option.splits)

lemma acceptable_stored:
  assumes "acceptable r s"
  obtains v where "map_of (db s) (credentials_email r) = Some v" and "\<not> finalized v"
  using assms
  by (auto simp: acceptable_def db_get_def finalized_def split: option.splits sum.splits)

lemma mset_filter_update:
  assumes "map_of d m = Some v" and "\<not> P v"
  shows "mset (filter P (map snd (AList.update m v' d))) =
           mset (filter P (map snd d)) + (if P v' then {#v'#} else {#})"
  using assms
  by (induction d) (auto split: if_splits)

lemma mset_indexes_Suc:
  "mset (map Some [1..<Suc (Suc n)]) = mset (map Some [1..<Suc n]) + {#Some (Suc n)#}"
proof -
  have "[1..<Suc (Suc n)] = [1..<Suc n] @ [Suc n]"
    by simp
  then have "map Some [1..<Suc (Suc n)] = map Some [1..<Suc n] @ [Some (Suc n)]"
    by (simp only: map_append list.map)
  then show ?thesis
    by (simp only: mset_append mset_single_iff_right) simp
qed

lemma new_vote_fields:
  "finalized (new_vote e r s)"
  "nationality (new_vote e r s) = nationality (payload r)"
  "index (new_vote e r s) = Some (Suc (length (votes_for (nationality (payload r)) (cache s))))"
  by (simp_all add: new_vote_def finalized_def fst_getIndex)

lemma commit_finalized_for:
  assumes "acceptable r s" and "put_error e = None"
  shows "mset (finalized_for k (db (snd (submit x e r s)))) =
           mset (finalized_for k (db s)) +
             (if k = nationality (payload r) then {#new_vote e r s#} else {#})"
proof -
  from assms(1) obtain v where v: "map_of (db s) (credentials_email r) = Some v" "\<not> finalized v"
    by (rule acceptable_stored)
  then have "\<not> (finalized v \<and> nationality v = k)"
    by simp
  with v(1) have "mset (filter (\<lambda>v. finalized v \<and> nationality v = k)
        (map snd (AList.update (credentials_email r) (new_vote e r s) (db s)))) =
      mset (filter (\<lambda>v. finalized v \<and> nationality v = k) (map snd (db s))) +
        (if finalized (new_vote e r s) \<and> nationality (new_vote e r s) = k
         then {#new_vote e r s#} else {#})"
    by (rule mset_filter_update)
  then show ?thesis
    by (auto simp: finalized_for_def commit_db [OF assms] new_vote_fields)
qed

lemma commit_finalized:
  assumes "acceptable r s" and "put_error e = None"
  shows "length (filter finalized (map snd (db (snd (submit x e r s))))) =
           Suc (length (filter finalized (map snd (db s))))"
proof -
  from assms(1) obtain v where v: "map_of (db s) (credentials_email r) = Some v" "\<not> finalized v"
    by (rule acceptable_stored)
  from v have "mset (filter finalized
        (map snd (AList.update (credentials_email r) (new_vote e r s) (db s)))) =
      mset (filter finalized (map snd (db s))) +
        (if finalized (new_vote e r s) then {#new_vote e r s#} else {#})"
    by (rule mset_filter_update)
  then have "size (mset (filter finalized (map snd (db (snd (submit x e r s)))))) =
          size (mset (filter finalized (map snd (db s))) + {#new_vote e r s#})"
    by (simp only: commit_db [OF assms] new_vote_fields if_True)
  then show ?thesis
    by (simp only: size_mset size_union size_single add_Suc_right add_0_right)
qed

lemma submit_consistent:
  assumes "consistent s" and "\<forall>v. \<exists>p. x v = Inr p"
  shows "consistent (snd (submit x e r s))"
proof (cases "acceptable r s")
  case False
  with assms(1) show ?thesis
    by (simp add: not_acceptable_same)
next
  case True
  show ?thesis
  proof (cases "put_error e")
    case (Some err)
    with True assms(1) show ?thesis
      by (simp add: consistent_def failed_components [OF True Some] distinct_getIndex
          votes_for_getIndex)
  next
    case None
    from assms(2) obtain p where p: "x (new_vote e r s) = Inr p"
      by blast
    let ?s = "snd (submit x e r s)"
    have d: "distinct (map code (cache s))"
      using assms(1) by (simp add: consistent_def)
    have "distinct (map fst (db ?s))"
      using assms(1) by (simp add: consistent_def commit_db [OF True None] distinct_update)
    moreover have "distinct (map code (cache ?s))"
      using d
      by (simp add: commit_cache [of r s e x p] True None p distinct_sort_cache
          map_code_prepend_vote distinct_getIndex)
    moreover have "mset (map index (finalized_for k (db ?s))) =
        mset (map Some [1..<Suc (length (votes_for k (cache ?s)))])" for k
    proof -
      have old: "mset (map index (finalized_for k (db s))) =
          mset (map Some [1..<Suc (length (votes_for k (cache s)))])"
        using assms(1) by (simp add: consistent_def)
      have "mset (map index (finalized_for k (db ?s))) =
          image_mset index (mset (finalized_for k (db ?s)))"
        by simp
      also have "\<dots> = mset (map index (finalized_for k (db s))) +
          (if k = nationality (payload r)
           then {#Some (Suc (length (votes_for k (cache s))))#} else {#})"
        by (simp add: commit_finalized_for [OF True None] new_vote_fields)
      also have "\<dots> = mset (map Some [1..<Suc (length (votes_for k (cache ?s)))])"
      proof (cases "k = nationality (payload r)")
        case True
        then have "votes_for k (cache ?s) = p # votes_for k (cache s)"
          by (simp add: commit_votes_for [of r s e x p] \<open>acceptable r s\<close> None p d)
        then have "mset (map Some [1..<Suc (length (votes_for k (cache ?s)))]) =
            mset (map Some [1..<Suc (length (votes_for k (cache s)))]) +
              {#Some (Suc (length (votes_for k (cache s))))#}"
          by (simp only: length_Cons mset_indexes_Suc)
        then show ?thesis
          by (simp only: if_P [OF True] old)
      next
        case False
        then have "votes_for k (cache ?s) = votes_for k (cache s)"
          by (simp add: commit_votes_for [of r s e x p] \<open>acceptable r s\<close> None p d)
        then show ?thesis
          by (simp only: if_not_P [OF False] old add_0_right)
      qed
      finally show ?thesis .
    qed
    ultimately show ?thesis
      by (simp add: consistent_def)
  qed
qed

lemma submit_counts_agree:
  assumes "counts_agree s" and "\<forall>v. \<exists>p. x v = Inr p"
  shows "counts_agree (snd (submit x e r s))"
proof (cases "acceptable r s")
  case False
  with assms(1) show ?thesis
    by (simp add: not_acceptable_same)
next
  case True
  show ?thesis
  proof (cases "put_error e")
    case (Some err)
    with True assms(1) show ?thesis
      by (simp add: counts_agree_def failed_components [OF True Some] total_votes_getIndex)
  next
    case None
    from assms(2) obtain p where p: "x (new_vote e r s) = Inr p"
      by blast
    let ?s = "snd (submit x e r s)"
    have "total_votes (cache ?s) = Suc (total_votes (cache s))"
      by (simp add: commit_cache [of r s e x p] True None p total_votes_sort_cache
          total_votes_prepend_vote find_getIndex total_votes_getIndex)
    moreover have "stats ?s = createStats (cache ?s)"
      using True None p by (rule commit_stats)
    moreover note commit_finalized [OF True None, of x]
    ultimately show ?thesis
      using assms(1)
      by (simp add: counts_agree_def createStats_global createStats_counts)
  qed
qed

lemma vote_consistent:
  "consistent s \<Longrightarrow> \<forall>v. \<exists>p. x v = Inr p \<Longrightarrow> consistent (snd (vote x e r s))"
  by (simp add: vote_def submit_consistent)

lemma vote_counts_agree:
  "counts_agree s \<Longrightarrow> \<forall>v. \<exists>p. x v = Inr p \<Longrightarrow> counts_agree (snd (vote x e r s))"
  by (simp add: vote_def submit_counts_agree)

lemma run_consistent:
  "consistent s \<Longrightarrow> \<forall>v. \<exists>p. x v = Inr p \<Longrightarrow> consistent (run x steps s)"
  by (induction x steps s rule: run.induct) (simp_all add: vote_consistent)

lemma run_counts_agree:
  "counts_agree s \<Longrightarrow> \<forall>v. \<exists>p. x v = Inr p \<Longrightarrow> counts_agree (run x steps s)"
  by (induction x steps s rule: run.induct) (simp_all add: vote_counts_agree)

text \<open>
  Claim C1. Start from a consistent state and let the handler answer any sequence of requests,
  one after the other (\<^verbatim>\<open>extractPublicPart\<close> not throwing). Then, for every nationality, the
  indexes of its finalized votes in the store are exactly the numbers from 1 to their
  count, each once; that count is the length of the country's list in \<^verbatim>\<open>cache\<close>, however
  \<^verbatim>\<open>cache\<close> has been re-sorted; and the next vote of that nationality is given the count
  plus 1 as its index.
\<close>

theorem indexes_without_gaps:
  assumes "consistent s" and "\<forall>v. \<exists>p. x v = Inr p"
  shows "set (map index (finalized_for k (db (run x steps s)))) =
           Some ` {1..length (finalized_for k (db (run x steps s)))} \<and>
         distinct (map index (finalized_for k (db (run x steps s)))) \<and>
         length (finalized_for k (db (run x steps s))) =
           length (votes_for k (cache (run x steps s))) \<and>
         (\<forall>e r. nationality (payload r) = k \<longrightarrow>
            index (new_vote e r (run x steps s)) =
              Some (length (finalized_for k (db (run x steps s))) + 1))"
proof -
  let ?s = "run x steps s"
  let ?n = "length (votes_for k (cache ?s))"
  have "consistent ?s"
    using assms by (rule run_consistent)
  then have m: "mset (map index (finalized_for k (db ?s))) = mset (map Some [1..<Suc ?n])"
    by (simp only: consistent_def)
  from m have "size (mset (map index (finalized_for k (db ?s)))) = size (mset (map Some [1..<Suc ?n]))"
    by (rule arg_cong)
  then have l: "length (finalized_for k (db ?s)) = ?n"
    by (simp only: size_mset length_map length_upt diff_Suc_1)
  from m have "set (map index (finalized_for k (db ?s))) = set (map Some [1..<Suc ?n])"
    by (rule mset_eq_setD)
  also have "\<dots> = Some ` {1..?n}"
    by (simp only: set_map set_upt atLeastLessThanSuc_atLeastAtMost)
  finally have st: "set (map index (finalized_for k (db ?s))) = Some ` {1..?n}" .
  have "distinct (map Some [1..<Suc ?n])"
    by (simp add: distinct_map)
  with m have d: "distinct (map index (finalized_for k (db ?s)))"
    by (metis mset_eq_imp_distinct_iff)
  from st d l show ?thesis
    by (simp add: new_vote_fields)
qed

theorem indexes_without_gaps_witness:
  "consistent two_registered \<and>
   map index (finalized_for (Some ''FR'')
     (db (run public_part
        [(calm 1, put_ballot ''X1'' ''ada@example.org'' ''FR''),
         (calm 2, put_ballot ''X2'' ''bob@example.org'' ''FR'')] two_registered)))
   = [Some 1, Some 2] \<and>
   set (map index (finalized_for (Some ''FR'')
     (db (run public_part
        [(calm 1, put_ballot ''X1'' ''ada@example.org'' ''FR''),
         (calm 2, put_ballot ''X2'' ''bob@example.org'' ''FR'')] two_registered))))
   = Some ` {1..2}"
proof -
  let ?steps = "[(calm 1, put_ballot ''X1'' ''ada@example.org'' ''FR''),
         (calm 2, put_ballot ''X2'' ''bob@example.org'' ''FR'')]"
  have c: "consistent two_registered"
    by (simp add: consistent_def example_defs finalized_for_def finalized_def votes_for_def)
  have t: "\<forall>v. \<exists>p. public_part v = Inr p"
    by (simp add: public_part_def)
  have v: "map index (finalized_for (Some ''FR'') (db (run public_part ?steps two_registered)))
       = [Some 1, Some 2]"
    by code_simp
  then have "length (finalized_for (Some ''FR'') (db (run public_part ?steps two_registered))) = 2"
    by (metis length_map length_Cons list.size(3) numeral_2_eq_2)
  with indexes_without_gaps [OF c t, of "Some ''FR''" ?steps] c v show ?thesis
    by (simp only: simp_thms)
qed

text \<open>
  The assumption on \<^verbatim>\<open>extractPublicPart\<close> cannot be dropped: were it to throw, the store
  would have the vote and \<^verbatim>\<open>cache\<close> would not, and the next vote of the country would get
  the same index.
\<close>

lemma throwing_part_repeats_index:
  "map index (finalized_for (Some ''FR'')
     (db (run throwing_part
        [(calm 1, put_ballot ''X1'' ''ada@example.org'' ''FR''),
         (calm 2, put_ballot ''X2'' ''bob@example.org'' ''FR'')] two_registered)))
   = [Some 1, Some 1]"
  by code_simp

text \<open>
  Claim C7. Start from a state whose counts agree and let the handler answer any sequence of
  requests, one after the other (\<^verbatim>\<open>extractPublicPart\<close> not throwing). Then the global count of
  the stats is the sum of the counts of its countries, and it is the number of finalized
  documents in the store.
\<close>

theorem counts_agree_after_run:
  assumes "counts_agree s" and "\<forall>v. \<exists>p. x v = Inr p"
  shows "global_count (listStats (run x steps s)) =
           sum_list (map s_count (country_list (listStats (run x steps s)))) \<and>
         global_count (listStats (run x steps s)) =
           length (filter finalized (map snd (db (run x steps s))))"
proof -
  have "counts_agree (run x steps s)"
    using assms by (rule run_counts_agree)
  then show ?thesis
    by (simp add: counts_agree_def listStats_def)
qed

theorem counts_agree_after_run_witness:
  "counts_agree six_registered \<and>
   global_count (listStats (run public_part (ballots [''AT'', ''BE'', ''AT'']) six_registered)) = 3 \<and>
   sum_list (map s_count (country_list (listStats
     (run public_part (ballots [''AT'', ''BE'', ''AT'']) six_registered)))) = 3 \<and>
   length (filter finalized (map snd (db
     (run public_part (ballots [''AT'', ''BE'', ''AT'']) six_registered)))) = 3"
proof -
  have c: "counts_agree six_registered"
    by (simp add: counts_agree_def example_defs createStats_def total_votes_def finalized_def)
  have t: "\<forall>v. \<exists>p. public_part v = Inr p"
    by (simp add: public_part_def)
  have v: "global_count (listStats (run public_part (ballots [''AT'', ''BE'', ''AT''])
      six_registered)) = 3"
    by code_simp
  with counts_agree_after_run [OF c t, of "ballots [''AT'', ''BE'', ''AT'']"] c show ?thesis
    by simp
qed

section \<open>The worker, one job\<close>

text \<open>
  Claim C10 says that the record is forwarded whenever a backup destination is configured.
  The worker also asks for the record's \<^verbatim>\<open>confirmed\<close> field: a vote as the handler enqueues
  it, without that field, is not forwarded.
\<close>

theorem backup_counterexample:
  "truthy (backup_url with_backup) \<and> truthy (backup_token with_backup) \<and>
   posts (process (\<lambda>v. ''done'') (\<lambda>v. ''confirm'') with_backup
            \<lparr>mail_error = None, fetch_error = None\<rparr>
            (ballot ''X1'' ''ada@example.org'' ''FR'' \<lparr>created := Some 7, index := Some 1\<rparr>) idle)
   = []"
  by (simp add: example_defs process_def truthy_def sendMail_def fetch_def catch_log_def)

text \<open>
  Claim C10, amended. For every job, and whether or not the mail transport or the backup
  request fail, the worker hands one mail to the transport, and it posts the job's record
  with the bearer token to the backup destination exactly when the backup's URL and token
  are configured and the record's \<^verbatim>\<open>confirmed\<close> field is truthy.
\<close>

theorem process_effects:
  "mails (process d c cfg e job w) = mails w @ [generateMail d c cfg job] \<and>
   posts (process d c cfg e job w) =
     posts w @
       (if truthy (backup_url cfg) \<and> truthy (backup_token cfg) \<and> confirmed job
        then [\<lparr>post_url = str (backup_url cfg), post_body = job,
               post_content_type = ''application/json'',
               post_authorization = ''Bearer '' @ str (backup_token cfg)\<rparr>]
        else [])"
  by (simp add: process_def sendMail_def fetch_def catch_log_def Let_def split: option.splits)

theorem process_effects_witness:
  "mail_error mail_down = Some MailError \<and>
   map mail_to (mails (process (\<lambda>v. ''done'') (\<lambda>v. ''confirm'') with_backup mail_down
      (ballot ''X1'' ''ada@example.org'' ''FR'' \<lparr>confirmed := True\<rparr>) idle)) = [''ada@example.org''] \<and>
   map post_authorization (posts (process (\<lambda>v. ''done'') (\<lambda>v. ''confirm'') with_backup mail_down
      (ballot ''X1'' ''ada@example.org'' ''FR'' \<lparr>confirmed := True\<rparr>) idle)) = [''Bearer secret'']"
  using process_effects [of "\<lambda>v. ''done''" "\<lambda>v. ''confirm''" with_backup mail_down
      "ballot ''X1'' ''ada@example.org'' ''FR'' \<lparr>confirmed := True\<rparr>" idle]
  by (simp add: example_defs truthy_def str_def generateMail_def)

end
